theory Spec2Isabelle
  imports Main "HOL-Library.AList"
begin

section \<open>Campaign scheduler (backend/scheduler.py): data model\<close>

text \<open>
  The scheduler works on MongoDB documents (Python dicts). A document is modelled by a
  record holding the fields the scheduler reads or writes; a field read with
  \<^verbatim>\<open>.get(key, default)\<close> is represented by its default when it is absent. Only
  \<^verbatim>\<open>scheduledAt\<close> keeps its absence visible (\<open>None\<close>), since the code tests it.
  Status values, channel names and dates are the strings the code compares.
\<close>

text \<open>Values decoded from a JSON body, and the Python values the delivery client returns
  as error (\<open>PNone\<close> is Python's \<^verbatim>\<open>None\<close>). JSON numbers are represented by integers.\<close>

datatype pyval =
    PNone
  | PBool bool
  | PInt int
  | PStr string
  | PList "pyval list"
  | PDict "(string \<times> pyval) list"

text \<open>Python truthiness, as used by \<^verbatim>\<open>if result.get("success")\<close>.\<close>

fun truthy :: "pyval \<Rightarrow> bool" where
  "truthy PNone = False"
| "truthy (PBool b) = b"
| "truthy (PInt i) = (i \<noteq> 0)"
| "truthy (PStr s) = (s \<noteq> [])"
| "truthy (PList l) = (l \<noteq> [])"
| "truthy (PDict d) = (d \<noteq> [])"

text \<open>\<^verbatim>\<open>d.get(k, default)\<close> on a dict given as an association list.\<close>

definition dict_get :: "(string \<times> 'v) list \<Rightarrow> string \<Rightarrow> 'v \<Rightarrow> 'v" where
  "dict_get d k dflt = (case map_of d k of Some v \<Rightarrow> v | None \<Rightarrow> dflt)"

text \<open>The JSON body posted to \<^verbatim>\<open>/api/campaigns/send-email\<close>; the key
  \<^verbatim>\<open>media_url\<close> is present only when the argument is truthy.\<close>

record payload =
  to_email :: string
  to_name :: string
  subject :: string
  message :: string
  media_url :: "string option"

text \<open>What \<^verbatim>\<open>response.json()\<close> does: it raises (with the exception's text) or
  returns the decoded value.\<close>

datatype json_result = JsonError string | Json pyval

text \<open>What \<^verbatim>\<open>requests.post(..., timeout=30)\<close> does: it raises
  \<^verbatim>\<open>requests.Timeout\<close>, raises another exception (with its text), or returns a
  response with a status code, a text and a JSON decoding.\<close>

datatype http_outcome =
    Timeout
  | OtherException string
  | Response int string json_result

record contact =
  contact_id :: string
  contact_email :: string
  contact_name :: string

record result_entry =
  contactId :: string
  contactName :: string
  contactEmail :: string
  contactPhone :: "string option"
  channel :: string
  rstatus :: string
  sentAt :: "string option"

record campaign =
  campaign_id :: string
  campaign_name :: string
  campaign_message :: string
  mediaUrl :: string
  scheduledAt :: "string option"
  scheduledDates :: "string list"
  sentDates :: "string list"
  targetType :: string
  selectedContacts :: "string list"
  channels :: "(string \<times> bool) list"
  results :: "result_entry list"
  retryCounts :: "(string \<times> int) list"
  status :: string
  updatedAt :: string
  lastProcessedAt :: "string option"

text \<open>The value of \<^verbatim>\<open>get_current_utc_time()\<close>: the instant, and its
  \<^verbatim>\<open>isoformat()\<close>.\<close>

record utc_time =
  instant :: int
  isoformat :: string

text \<open>The two collections of the database, and the requests posted so far.\<close>

record world =
  campaigns :: "campaign list"
  users :: "contact list"
  outbox :: "payload list"

definition MAX_RETRY_ATTEMPTS :: int where
  "MAX_RETRY_ATTEMPTS = 3"

section \<open>Decimal printing of integers\<close>

definition digit_chars :: string where
  "digit_chars = ''0123456789''"

function str_nat :: "nat \<Rightarrow> string" where
  "str_nat n = (if n < 10 then [digit_chars ! n] else str_nat (n div 10) @ [digit_chars ! (n mod 10)])"
  by pat_completeness auto
termination
  by (relation "measure (\<lambda>n. n)") auto

declare str_nat.simps [simp del]

definition str_int :: "int \<Rightarrow> string" where
  "str_int i = (if i < 0 then CHR ''-'' # str_nat (nat (- i)) else str_nat (nat i))"

section \<open>The delivery client\<close>

text \<open>The text of the \<^verbatim>\<open>AttributeError\<close> raised by \<^verbatim>\<open>result.get\<close> when the decoded
  body is not a dict.\<close>

fun type_name :: "pyval \<Rightarrow> string" where
  "type_name PNone = ''NoneType''"
| "type_name (PBool b) = ''bool''"
| "type_name (PInt i) = ''int''"
| "type_name (PStr s) = ''str''"
| "type_name (PList l) = ''list''"
| "type_name (PDict d) = ''dict''"

definition no_attribute_get :: "pyval \<Rightarrow> string" where
  "no_attribute_get v = [CHR 39] @ type_name v @ [CHR 39] @ '' object has no attribute '' @ [CHR 39] @ ''get'' @ [CHR 39]"

definition timeout_text :: string where
  "timeout_text = ''Timeout lors de l'' @ [CHR 39] @ ''envoi''"

text \<open>
  \<^verbatim>\<open>send_campaign_email(to_email, to_name, subject, message, media_url=None)\<close>.
  \<open>post\<close> is the network: the outcome of the request, given the number of requests made
  before it and the body. The request is appended to the outbox.
\<close>

definition make_payload :: "string \<Rightarrow> string \<Rightarrow> string \<Rightarrow> string \<Rightarrow> string option \<Rightarrow> payload" where
  "make_payload email name subj msg media =
     \<lparr>to_email = email, to_name = name, subject = subj, message = msg,
      media_url = (case media of None \<Rightarrow> None | Some m \<Rightarrow> if m \<noteq> [] then Some m else None)\<rparr>"

definition send_campaign_email ::
  "(nat \<Rightarrow> payload \<Rightarrow> http_outcome) \<Rightarrow> payload list \<Rightarrow>
     string \<Rightarrow> string \<Rightarrow> string \<Rightarrow> string \<Rightarrow> string option \<Rightarrow> (bool \<times> pyval) \<times> payload list" where
  "send_campaign_email post reqs email name subj msg media =
     (let body = make_payload email name subj msg media;
          response = post (length reqs) body;
          reqs' = reqs @ [body]
      in (case response of
            Timeout \<Rightarrow> ((False, PStr timeout_text), reqs')
          | OtherException e \<Rightarrow> ((False, PStr e), reqs')
          | Response status_code text js \<Rightarrow>
              if status_code = 200 then
                (case js of
                   JsonError e \<Rightarrow> ((False, PStr e), reqs')
                 | Json (PDict d) \<Rightarrow>
                     if truthy (dict_get d ''success'' PNone) then ((True, PNone), reqs')
                     else ((False, dict_get d ''error'' (PStr ''Erreur inconnue'')), reqs')
                 | Json v \<Rightarrow> ((False, PStr (no_attribute_get v)), reqs'))
              else ((False, PStr (''HTTP '' @ str_int status_code @ '': '' @ take 200 text)), reqs')))"

section \<open>Date handling\<close>

text \<open>\<^verbatim>\<open>date_str.replace('Z', '+00:00')\<close>.\<close>

definition replace_Z :: "string \<Rightarrow> string" where
  "replace_Z s = concat (map (\<lambda>c. if c = CHR ''Z'' then ''+00:00'' else [c]) s)"

text \<open>
  \<^verbatim>\<open>parse_scheduled_date(date_str)\<close>. The library function
  \<^verbatim>\<open>datetime.fromisoformat\<close> is a parameter: it raises (\<open>None\<close>; the exception is
  caught) or returns a wall-clock time with an optional offset to UTC. The datetime returned
  by the source always carries a timezone and is only ever compared with the current time,
  so it is represented by its UTC instant.
\<close>

definition parse_scheduled_date :: "(string \<Rightarrow> (int \<times> int option) option) \<Rightarrow> string \<Rightarrow> int option" where
  "parse_scheduled_date fromisoformat date_str =
     (if date_str = [] then None
      else
        let s = (if CHR ''Z'' \<in> set date_str then replace_Z date_str else date_str)
        in (case fromisoformat s of
              None \<Rightarrow> None
            | Some (wall, tz) \<Rightarrow>
                let tz1 = (if CHR ''+'' \<in> set s \<or> CHR ''-'' \<in> set (drop (length s - 6) s)
                           then tz else Some 0)
                in Some (wall - (case tz1 of None \<Rightarrow> 0 | Some off \<Rightarrow> off))))"

text \<open>The normalised list of scheduled dates: \<^verbatim>\<open>[scheduled_at]\<close> when
  \<^verbatim>\<open>scheduledAt\<close> is truthy and \<^verbatim>\<open>scheduledDates\<close> is empty.\<close>

definition scheduled_dates :: "campaign \<Rightarrow> string list" where
  "scheduled_dates c =
     (case scheduledAt c of
        Some s \<Rightarrow> if s \<noteq> [] \<and> scheduledDates c = [] then [s] else scheduledDates c
      | None \<Rightarrow> scheduledDates c)"

text \<open>The dates that are parseable, past and not yet in \<^verbatim>\<open>sentDates\<close>.\<close>

definition dates_to_process ::
  "(string \<Rightarrow> (int \<times> int option) option) \<Rightarrow> utc_time \<Rightarrow> campaign \<Rightarrow> string list" where
  "dates_to_process fromisoformat now c =
     filter (\<lambda>date_str.
               case parse_scheduled_date fromisoformat date_str of
                 None \<Rightarrow> False
               | Some scheduled_dt \<Rightarrow> scheduled_dt \<le> instant now \<and> date_str \<notin> set (sentDates c))
            (scheduled_dates c)"

section \<open>The store\<close>

text \<open>\<^verbatim>\<open>db.campaigns.find_one({"id": i})\<close> and
  \<^verbatim>\<open>db.campaigns.update_one({"id": i}, ...)\<close>: the first document with that id.\<close>

fun find_one :: "string \<Rightarrow> campaign list \<Rightarrow> campaign option" where
  "find_one i [] = None"
| "find_one i (d # ds) = (if campaign_id d = i then Some d else find_one i ds)"

fun update_one :: "string \<Rightarrow> (campaign \<Rightarrow> campaign) \<Rightarrow> campaign list \<Rightarrow> campaign list" where
  "update_one i f [] = []"
| "update_one i f (d # ds) = (if campaign_id d = i then f d # ds else d # update_one i f ds)"

text \<open>\<^verbatim>\<open>{"$addToSet": {"sentDates": {"$each": ds}}}\<close>: each value that is not yet in
  the array is appended.\<close>

definition addToSet_each :: "string list \<Rightarrow> string list \<Rightarrow> string list" where
  "addToSet_each arr ds = fold (\<lambda>d acc. if d \<in> set acc then acc else acc @ [d]) ds arr"

definition contacts_of :: "campaign \<Rightarrow> world \<Rightarrow> contact list" where
  "contacts_of c w =
     (if targetType c = ''all'' then users w
      else filter (\<lambda>u. contact_id u \<in> set (selectedContacts c)) (users w))"

definition email_enabled :: "campaign \<Rightarrow> bool" where
  "email_enabled c = dict_get (channels c) ''email'' False"

section \<open>The send loop\<close>

record send_state =
  success_count :: nat
  fail_count :: nat
  cur_results :: "result_entry list"
  retry_counts :: "(string \<times> int) list"
  requests :: "payload list"

definition already_sent :: "result_entry list \<Rightarrow> string \<Rightarrow> bool" where
  "already_sent rs cid =
     list_ex (\<lambda>r. contactId r = cid \<and> channel r = ''email'' \<and> rstatus r = ''sent'') rs"

text \<open>The first entry of the contact for the email channel is replaced; without one, the
  new entry is appended.\<close>

fun upsert_result :: "result_entry \<Rightarrow> result_entry list \<Rightarrow> result_entry list" where
  "upsert_result e [] = [e]"
| "upsert_result e (r # rs) =
     (if contactId r = contactId e \<and> channel r = ''email'' then e # rs
      else r # upsert_result e rs)"

definition retry_key :: "string \<Rightarrow> string" where
  "retry_key cid = cid @ ''_email''"

text \<open>The body of \<^verbatim>\<open>for contact in contacts\<close>.\<close>

definition send_to_contact ::
  "(nat \<Rightarrow> payload \<Rightarrow> http_outcome) \<Rightarrow> utc_time \<Rightarrow> bool \<Rightarrow> string \<Rightarrow> string \<Rightarrow> string \<Rightarrow>
     contact \<Rightarrow> send_state \<Rightarrow> send_state" where
  "send_to_contact post now dry_run subj msg media c st =
     (if contact_email c = [] then st
      else if already_sent (cur_results st) (contact_id c)
      then st\<lparr>success_count := success_count st + 1\<rparr>
      else
        let current_retries = dict_get (retry_counts st) (retry_key (contact_id c)) 0
        in if current_retries \<ge> MAX_RETRY_ATTEMPTS
           then st\<lparr>fail_count := fail_count st + 1\<rparr>
           else
             let ((success, error), reqs) =
                   (if dry_run then ((True, PNone), requests st)
                    else send_campaign_email post (requests st) (contact_email c)
                           (contact_name c) subj msg (if media \<noteq> [] then Some media else None))
             in if success
                then st\<lparr>success_count := success_count st + 1,
                        cur_results :=
                          upsert_result
                            \<lparr>contactId = contact_id c, contactName = contact_name c,
                             contactEmail = contact_email c, contactPhone = None,
                             channel = ''email'', rstatus = ''sent'',
                             sentAt = Some (isoformat now)\<rparr>
                            (cur_results st),
                        requests := reqs\<rparr>
                else st\<lparr>fail_count := fail_count st + 1,
                        retry_counts :=
                          AList.update (retry_key (contact_id c)) (current_retries + 1)
                            (retry_counts st),
                        requests := reqs\<rparr>)"

definition send_loop ::
  "(nat \<Rightarrow> payload \<Rightarrow> http_outcome) \<Rightarrow> utc_time \<Rightarrow> bool \<Rightarrow> string \<Rightarrow> string \<Rightarrow> string \<Rightarrow>
     contact list \<Rightarrow> send_state \<Rightarrow> send_state" where
  "send_loop post now dry_run subj msg media cs st =
     fold (send_to_contact post now dry_run subj msg media) cs st"

text \<open>The subject line: a loudspeaker sign (U+1F4E2, in UTF-8), a space and the name.\<close>

definition subject_of :: "campaign \<Rightarrow> string" where
  "subject_of c = [CHR 0xF0, CHR 0x9F, CHR 0x93, CHR 0xA2] @ '' '' @ campaign_name c"

text \<open>The whole loop of a campaign, from the counts at zero and the results, retry counts
  and outbox as they are.\<close>

definition send_to_contacts ::
  "(nat \<Rightarrow> payload \<Rightarrow> http_outcome) \<Rightarrow> utc_time \<Rightarrow> bool \<Rightarrow> campaign \<Rightarrow> world \<Rightarrow> send_state" where
  "send_to_contacts post now dry_run c w =
     send_loop post now dry_run (subject_of c) (campaign_message c) (mediaUrl c) (contacts_of c w)
       \<lparr>success_count = 0, fail_count = 0, cur_results = results c,
        retry_counts = retryCounts c, requests = outbox w\<rparr>"

section \<open>Processing one campaign\<close>

text \<open>
  \<^verbatim>\<open>process_campaign(campaign, dry_run)\<close>: the campaign is the document read at the
  start of the sweep, the world holds the store. The result is
  \<^verbatim>\<open>(processed, success_count, fail_count)\<close> and the world afterwards.
  \<^verbatim>\<open>list(set(xs))\<close> enumerates in an order Python does not fix; \<open>remdups\<close> stands for it.
\<close>

definition process_campaign ::
  "(string \<Rightarrow> (int \<times> int option) option) \<Rightarrow> (nat \<Rightarrow> payload \<Rightarrow> http_outcome) \<Rightarrow>
     utc_time \<Rightarrow> bool \<Rightarrow> campaign \<Rightarrow> world \<Rightarrow> (bool \<times> nat \<times> nat) \<times> world" where
  "process_campaign fromisoformat post now dry_run c w =
     (if scheduled_dates c = [] then ((False, 0, 0), w)
      else
        let due = dates_to_process fromisoformat now c
        in if due = [] then ((False, 0, 0), w)
           else
             if contacts_of c w = []
                then ((True, 0, 0),
                      w\<lparr>campaigns :=
                          update_one (campaign_id c)
                            (\<lambda>d. d\<lparr>status := ''completed'', updatedAt := isoformat now\<rparr>)
                            (campaigns w)\<rparr>)
                else if \<not> email_enabled c
                then
                  let all_dates_processed = (set (scheduled_dates c) \<subseteq> set (sentDates c @ due));
                      new_status = (if all_dates_processed then ''completed'' else ''scheduled'')
                  in ((True, 0, 0),
                      w\<lparr>campaigns :=
                          update_one (campaign_id c)
                            (\<lambda>d. d\<lparr>status := new_status, updatedAt := isoformat now,
                                   sentDates := addToSet_each (sentDates d) due\<rparr>)
                            (campaigns w)\<rparr>)
                else
                  let st = send_to_contacts post now dry_run c w;
                      new_sent_dates = remdups (sentDates c @ due);
                      all_dates_processed = (set (scheduled_dates c) \<subseteq> set new_sent_dates);
                      new_status = (if fail_count st > 0 \<and> success_count st = 0 then ''failed''
                                    else if all_dates_processed then ''completed''
                                    else ''scheduled'')
                  in ((True, success_count st, fail_count st),
                      w\<lparr>campaigns :=
                          update_one (campaign_id c)
                            (\<lambda>d. d\<lparr>status := new_status, results := cur_results st,
                                   sentDates := new_sent_dates, retryCounts := retry_counts st,
                                   updatedAt := isoformat now,
                                   lastProcessedAt := Some (isoformat now)\<rparr>)
                            (campaigns w),
                        outbox := requests st\<rparr>))"

section \<open>One sweep\<close>

definition selected :: "campaign \<Rightarrow> bool" where
  "selected c = (status c = ''scheduled'' \<or> status c = ''sending'')"

text \<open>The loop of \<^verbatim>\<open>run_scheduler\<close> over the campaigns found. \<open>clock k\<close> is the
  \<open>k\<close>-th reading of the clock in the sweep; the totals are
  \<^verbatim>\<open>(campaigns_processed, total_success, total_fail)\<close>.\<close>

fun process_all ::
  "(string \<Rightarrow> (int \<times> int option) option) \<Rightarrow> (nat \<Rightarrow> payload \<Rightarrow> http_outcome) \<Rightarrow>
     (nat \<Rightarrow> utc_time) \<Rightarrow> bool \<Rightarrow> nat \<Rightarrow> campaign list \<Rightarrow> (nat \<times> nat \<times> nat) \<times> world \<Rightarrow>
     (nat \<times> nat \<times> nat) \<times> world" where
  "process_all fromisoformat post clock dry_run k [] acc = acc"
| "process_all fromisoformat post clock dry_run k (c # cs) ((n, s, f), w) =
     (let ((processed, success, fail), w') =
            process_campaign fromisoformat post (clock k) dry_run c w
      in process_all fromisoformat post clock dry_run (Suc k) cs
           (if processed then ((n + 1, s + success, f + fail), w') else ((n, s, f), w')))"

text \<open>\<^verbatim>\<open>run_scheduler(dry_run)\<close>: the summary that is logged (none when no campaign is
  found) and the world afterwards. Reading 0 of the clock is the sweep's own.\<close>

definition run_scheduler ::
  "(string \<Rightarrow> (int \<times> int option) option) \<Rightarrow> (nat \<Rightarrow> payload \<Rightarrow> http_outcome) \<Rightarrow>
     (nat \<Rightarrow> utc_time) \<Rightarrow> bool \<Rightarrow> world \<Rightarrow> (nat \<times> nat \<times> nat) option \<times> world" where
  "run_scheduler fromisoformat post clock dry_run w =
     (let found = filter selected (campaigns w)
      in if found = [] then (None, w)
         else
           let (totals, w') =
                 process_all fromisoformat post clock dry_run 1 found ((0, 0, 0), w)
           in (Some totals, w'))"

text \<open>
  Loop mode of \<^verbatim>\<open>main\<close>: \<^verbatim>\<open>while True: run_scheduler(...); time.sleep(interval)\<close>.
  The loop never ends; \<open>main_loop\<close> gives the world after \<open>n\<close> more sweeps, starting with
  sweep \<open>j\<close>. \<open>clock j k\<close> is reading \<open>k\<close> of the clock in sweep \<open>j\<close>.
\<close>

fun main_loop ::
  "(string \<Rightarrow> (int \<times> int option) option) \<Rightarrow> (nat \<Rightarrow> payload \<Rightarrow> http_outcome) \<Rightarrow>
     (nat \<Rightarrow> nat \<Rightarrow> utc_time) \<Rightarrow> bool \<Rightarrow> nat \<Rightarrow> nat \<Rightarrow> world \<Rightarrow> world" where
  "main_loop fromisoformat post clock dry_run j 0 w = w"
| "main_loop fromisoformat post clock dry_run j (Suc n) w =
     main_loop fromisoformat post clock dry_run (Suc j) n
       (snd (run_scheduler fromisoformat post (clock j) dry_run w))"

section \<open>Example data\<close>

definition ex_fromisoformat :: "string \<Rightarrow> (int \<times> int option) option" where
  "ex_fromisoformat =
     map_of [(''2024-01-01T00:00:00+00:00'', (1704067200, Some 0)),
             (''2024-02-01T00:00:00+00:00'', (1706745600, Some 0))]"

definition ex_contact :: contact where
  "ex_contact = \<lparr>contact_id = ''u1'', contact_email = ''ada@example.org'', contact_name = ''Ada''\<rparr>"

definition ex_campaign :: campaign where
  "ex_campaign =
     \<lparr>campaign_id = ''c1'', campaign_name = ''Promo'', campaign_message = ''Hello'',
      mediaUrl = [], scheduledAt = None,
      scheduledDates = [''2024-01-01T00:00:00Z'', ''2024-02-01T00:00:00Z''],
      sentDates = [], targetType = ''all'', selectedContacts = [],
      channels = [(''email'', True)], results = [], retryCounts = [],
      status = ''scheduled'', updatedAt = ''2023-12-01T00:00:00+00:00'',
      lastProcessedAt = None\<rparr>"

definition ex_world :: world where
  "ex_world = \<lparr>campaigns = [ex_campaign], users = [ex_contact], outbox = []\<rparr>"

definition january :: utc_time where
  "january = \<lparr>instant = 1704070800, isoformat = ''2024-01-01T01:00:00+00:00''\<rparr>"

definition february :: utc_time where
  "february = \<lparr>instant = 1706749200, isoformat = ''2024-02-01T01:00:00+00:00''\<rparr>"

definition post_ok :: "nat \<Rightarrow> payload \<Rightarrow> http_outcome" where
  "post_ok k body = Response 200 ''{}'' (Json (PDict [(''success'', PBool True)]))"

definition post_down :: "nat \<Rightarrow> payload \<Rightarrow> http_outcome" where
  "post_down k body = Response 503 ''down'' (JsonError ''Expecting value'')"

definition december :: utc_time where
  "december = \<lparr>instant = 1701392400, isoformat = ''2023-12-01T01:00:00+00:00''\<rparr>"

text \<open>The example campaign with a target that selects nobody, with the email channel
  disabled, and with a single \<^verbatim>\<open>scheduledAt\<close> instead of the list of dates.\<close>

definition ex_selected :: campaign where
  "ex_selected = ex_campaign\<lparr>targetType := ''selected'', selectedContacts := [''nobody'']\<rparr>"

definition ex_whatsapp :: campaign where
  "ex_whatsapp = ex_campaign\<lparr>channels := [(''whatsapp'', True), (''email'', False)]\<rparr>"

definition ex_single :: campaign where
  "ex_single = ex_campaign\<lparr>scheduledAt := Some ''2024-01-01T00:00:00Z'', scheduledDates := []\<rparr>"

definition world_of :: "campaign \<Rightarrow> world" where
  "world_of c = \<lparr>campaigns = [c], users = [ex_contact], outbox = []\<rparr>"

text \<open>The example world after a sweep in January during which the delivery endpoint is down.\<close>

definition ex_failed_world :: world where
  "ex_failed_world = snd (run_scheduler ex_fromisoformat post_down (\<lambda>k. january) False ex_world)"

text \<open>The example campaign after a manual launch (status \<open>sending\<close>).\<close>

definition ex_sending :: campaign where
  "ex_sending = ex_campaign\<lparr>status := ''sending''\<rparr>"




section \<open>The delivery client: contract\<close>

text \<open>
  Claim C9. The delivery client returns \<open>(True, None)\<close> exactly when the call yields status
  200 with a JSON object whose \<open>success\<close> entry is truthy. A 200 response whose
  \<open>success\<close> is falsy gives \<open>False\<close> with the body's \<open>error\<close> entry (the text
  \<open>Erreur inconnue\<close> when the body has none); another status gives \<open>False\<close> with
  \<open>HTTP\<close>, the code and the first 200 characters of the text; a timeout, another
  exception, a body that is not JSON or not an object give \<open>False\<close> with a diagnostic
  string. The function always returns, and it posts exactly one request.
\<close>

theorem send_campaign_email_contract:
  "(fst (send_campaign_email post reqs email name subj msg media) = (True, PNone) \<longleftrightarrow>
      (\<exists>text d. post (length reqs) (make_payload email name subj msg media) = Response 200 text (Json (PDict d))
          \<and> truthy (dict_get d ''success'' PNone)))
   \<and> (\<forall>text d. post (length reqs) (make_payload email name subj msg media) = Response 200 text (Json (PDict d))
          \<and> \<not> truthy (dict_get d ''success'' PNone) \<longrightarrow>
        fst (send_campaign_email post reqs email name subj msg media)
          = (False, dict_get d ''error'' (PStr ''Erreur inconnue'')))
   \<and> (\<forall>code text js. post (length reqs) (make_payload email name subj msg media) = Response code text js
          \<and> code \<noteq> 200 \<longrightarrow>
        fst (send_campaign_email post reqs email name subj msg media)
          = (False, PStr (''HTTP '' @ str_int code @ '': '' @ take 200 text)))
   \<and> (post (length reqs) (make_payload email name subj msg media) = Timeout \<longrightarrow>
        fst (send_campaign_email post reqs email name subj msg media) = (False, PStr timeout_text))
   \<and> (\<forall>e. post (length reqs) (make_payload email name subj msg media) = OtherException e \<longrightarrow>
        fst (send_campaign_email post reqs email name subj msg media) = (False, PStr e))
   \<and> (\<forall>text e. post (length reqs) (make_payload email name subj msg media) = Response 200 text (JsonError e) \<longrightarrow>
        fst (send_campaign_email post reqs email name subj msg media) = (False, PStr e))
   \<and> (\<forall>text v. post (length reqs) (make_payload email name subj msg media) = Response 200 text (Json v)
          \<and> (\<forall>d. v \<noteq> PDict d) \<longrightarrow>
        fst (send_campaign_email post reqs email name subj msg media) = (False, PStr (no_attribute_get v)))
   \<and> snd (send_campaign_email post reqs email name subj msg media)
        = reqs @ [make_payload email name subj msg media]"
  by (auto simp add: send_campaign_email_def Let_def split: http_outcome.splits json_result.splits pyval.splits)

theorem send_campaign_email_contract_witness:
  "fst (send_campaign_email (\<lambda>k b. Response 200 ''{}'' (Json (PDict [(''success'', PBool True)]))) [] ''a@b.c'' ''A'' ''s'' ''m'' None) = (True, PNone)
   \<and> fst (send_campaign_email (\<lambda>k b. Response 200 ''{}'' (Json (PDict [(''success'', PBool False), (''error'', PStr ''quota'')]))) [] ''a@b.c'' ''A'' ''s'' ''m'' None) = (False, PStr ''quota'')
   \<and> fst (send_campaign_email (\<lambda>k b. Response 503 ''down'' (JsonError ''no json'')) [] ''a@b.c'' ''A'' ''s'' ''m'' None) = (False, PStr ''HTTP 503: down'')
   \<and> fst (send_campaign_email (\<lambda>k b. Timeout) [] ''a@b.c'' ''A'' ''s'' ''m'' None) = (False, PStr timeout_text)"
  using send_campaign_email_contract [of "\<lambda>k b. Response 200 ''{}'' (Json (PDict [(''success'', PBool True)]))" "[]" "''a@b.c''" "''A''" "''s''" "''m''" None]
    send_campaign_email_contract [of "\<lambda>k b. Response 200 ''{}'' (Json (PDict [(''success'', PBool False), (''error'', PStr ''quota'')]))" "[]" "''a@b.c''" "''A''" "''s''" "''m''" None]
    send_campaign_email_contract [of "\<lambda>k b. Response 503 ''down'' (JsonError ''no json'')" "[]" "''a@b.c''" "''A''" "''s''" "''m''" None]
    send_campaign_email_contract [of "\<lambda>k b. Timeout" "[]" "''a@b.c''" "''A''" "''s''" "''m''" None]
  by (simp add: dict_get_def str_int_def str_nat.simps digit_chars_def)

section \<open>Basic facts about the store and the paths of \<open>process_campaign\<close>\<close>

lemma find_one_id: "find_one i ds = Some d \<Longrightarrow> campaign_id d = i"
  by (induction ds) (auto split: if_splits)

lemma find_one_mem: "find_one i ds = Some d \<Longrightarrow> d \<in> set ds"
  by (induction ds) (auto split: if_splits)

lemma find_one_distinct:
  "distinct (map campaign_id ds) \<Longrightarrow> d \<in> set ds \<Longrightarrow> find_one (campaign_id d) ds = Some d"
  by (induction ds) (auto simp: rev_image_eqI)

lemma find_one_update_one:
  assumes "\<And>d. campaign_id (f d) = campaign_id d"
  shows "find_one j (update_one i f ds) = (if j = i then map_option f (find_one j ds) else find_one j ds)"
  using assms by (induction ds) auto

lemma ids_update_one:
  assumes "\<And>d. campaign_id (f d) = campaign_id d"
  shows "map campaign_id (update_one i f ds) = map campaign_id ds"
  using assms by (induction ds) auto

lemma due_subset: "set (dates_to_process fi now c) \<subseteq> set (scheduled_dates c)"
  by (auto simp: dates_to_process_def)

lemma due_not_sent: "d \<in> set (dates_to_process fi now c) \<Longrightarrow> d \<notin> set (sentDates c)"
  by (auto simp: dates_to_process_def split: option.splits)

lemma due_nonempty_scheduled: "dates_to_process fi now c \<noteq> [] \<Longrightarrow> scheduled_dates c \<noteq> []"
  by (auto simp: dates_to_process_def)

lemma process_campaign_not_due:
  "dates_to_process fi now c = [] \<Longrightarrow> process_campaign fi post now dr c w = ((False, 0, 0), w)"
  by (simp add: process_campaign_def)

lemma process_campaign_no_dates:
  "scheduled_dates c = [] \<Longrightarrow> process_campaign fi post now dr c w = ((False, 0, 0), w)"
  by (simp add: process_campaign_def)

lemma process_campaign_no_contacts:
  "dates_to_process fi now c \<noteq> [] \<Longrightarrow> contacts_of c w = [] \<Longrightarrow>
   process_campaign fi post now dr c w =
     ((True, 0, 0),
      w\<lparr>campaigns := update_one (campaign_id c)
           (\<lambda>d. d\<lparr>status := ''completed'', updatedAt := isoformat now\<rparr>) (campaigns w)\<rparr>)"
  by (simp add: process_campaign_def due_nonempty_scheduled Let_def)

lemma process_campaign_email_disabled:
  "dates_to_process fi now c \<noteq> [] \<Longrightarrow> contacts_of c w \<noteq> [] \<Longrightarrow> \<not> email_enabled c \<Longrightarrow>
   process_campaign fi post now dr c w =
     ((True, 0, 0),
      w\<lparr>campaigns := update_one (campaign_id c)
           (\<lambda>d. d\<lparr>status := (if set (scheduled_dates c) \<subseteq> set (sentDates c @ dates_to_process fi now c)
                               then ''completed'' else ''scheduled''),
                  updatedAt := isoformat now,
                  sentDates := addToSet_each (sentDates d) (dates_to_process fi now c)\<rparr>)
           (campaigns w)\<rparr>)"
  by (simp add: process_campaign_def due_nonempty_scheduled Let_def)

lemma process_campaign_send:
  "dates_to_process fi now c \<noteq> [] \<Longrightarrow> contacts_of c w \<noteq> [] \<Longrightarrow> email_enabled c \<Longrightarrow>
   process_campaign fi post now dr c w =
     ((True, success_count (send_to_contacts post now dr c w), fail_count (send_to_contacts post now dr c w)),
      w\<lparr>campaigns := update_one (campaign_id c)
           (\<lambda>d. d\<lparr>status := (if fail_count (send_to_contacts post now dr c w) > 0 \<and> success_count (send_to_contacts post now dr c w) = 0 then ''failed''
                               else if set (scheduled_dates c) \<subseteq> set (remdups (sentDates c @ dates_to_process fi now c))
                               then ''completed'' else ''scheduled''),
                  results := cur_results (send_to_contacts post now dr c w),
                  sentDates := remdups (sentDates c @ dates_to_process fi now c),
                  retryCounts := retry_counts (send_to_contacts post now dr c w),
                  updatedAt := isoformat now,
                  lastProcessedAt := Some (isoformat now)\<rparr>)
           (campaigns w),
         outbox := requests (send_to_contacts post now dr c w)\<rparr>)"
  by (simp add: process_campaign_def due_nonempty_scheduled Let_def)


lemma covers_raw_iff:
  assumes "dates_to_process fi now c \<noteq> []"
  shows "(set (scheduled_dates c) \<subseteq> set (sentDates c) \<union> set (dates_to_process fi now c))
       = (set (scheduledDates c) \<subseteq> set (sentDates c) \<union> set (dates_to_process fi now c))"
proof (cases "scheduled_dates c = scheduledDates c")
  case True
  then show ?thesis by simp
next
  case False
  then obtain s where s: "scheduled_dates c = [s]" "scheduledDates c = []"
    by (auto simp: scheduled_dates_def split: option.splits if_splits)
  from assms obtain d where "d \<in> set (dates_to_process fi now c)"
    by (cases "dates_to_process fi now c") auto
  with due_subset [of fi now c] s have "s \<in> set (dates_to_process fi now c)" by auto
  with s show ?thesis by simp
qed

text \<open>
  Claim C1. For a campaign that reaches the send loop (a date is due, a contact resolves,
  the email channel is enabled), processing returns \<open>processed\<close> with the counts of the
  loop, and the status persisted is \<open>failed\<close> if the failure count is positive and the
  success count is zero, otherwise \<open>completed\<close> if the sent dates joined with the due
  dates cover the scheduled dates, otherwise \<open>scheduled\<close>. On this path the cover test
  gives the same answer on the stored \<open>scheduledDates\<close> and on the normalised list.
\<close>

theorem status_reduction:
  assumes "find_one (campaign_id c) (campaigns w) = Some c"
    and "dates_to_process fi now c \<noteq> []"
    and "contacts_of c w \<noteq> []"
    and "email_enabled c"
  shows "fst (process_campaign fi post now dr c w)
           = (True, success_count (send_to_contacts post now dr c w),
                    fail_count (send_to_contacts post now dr c w))
       \<and> (\<exists>c'. find_one (campaign_id c) (campaigns (snd (process_campaign fi post now dr c w))) = Some c'
             \<and> status c' =
                 (if fail_count (send_to_contacts post now dr c w) > 0
                     \<and> success_count (send_to_contacts post now dr c w) = 0 then ''failed''
                  else if set (scheduledDates c) \<subseteq> set (sentDates c) \<union> set (dates_to_process fi now c)
                  then ''completed'' else ''scheduled'')
             \<and> set (sentDates c') = set (sentDates c) \<union> set (dates_to_process fi now c))
       \<and> ((set (scheduled_dates c) \<subseteq> set (sentDates c) \<union> set (dates_to_process fi now c))
            = (set (scheduledDates c) \<subseteq> set (sentDates c) \<union> set (dates_to_process fi now c)))"
  using assms covers_raw_iff [OF assms(2)]
  by (simp add: process_campaign_send find_one_update_one)

lemmas ex_defs = ex_fromisoformat_def ex_contact_def ex_campaign_def ex_world_def january_def
  february_def post_ok_def post_down_def

lemma ex_due: "dates_to_process ex_fromisoformat january ex_campaign = [''2024-01-01T00:00:00Z'']"
  by (simp add: ex_defs dates_to_process_def scheduled_dates_def parse_scheduled_date_def replace_Z_def)

lemma ex_campaign_id: "campaign_id ex_campaign = ''c1''"
  by (simp add: ex_campaign_def)

lemma ex_found: "find_one (campaign_id ex_campaign) (campaigns ex_world) = Some ex_campaign"
  by (simp add: ex_world_def)

lemma ex_contacts: "contacts_of ex_campaign ex_world = [ex_contact]"
  by (simp add: contacts_of_def ex_world_def ex_campaign_def)

lemma ex_email_enabled: "email_enabled ex_campaign"
  by (simp add: email_enabled_def ex_campaign_def dict_get_def)

lemmas loop_defs = send_to_contacts_def send_loop_def send_to_contact_def already_sent_def
  dict_get_def retry_key_def MAX_RETRY_ATTEMPTS_def send_campaign_email_def make_payload_def

lemma ex_loop_ok:
  "success_count (send_to_contacts post_ok january False ex_campaign ex_world) = 1 \<and>
   fail_count (send_to_contacts post_ok january False ex_campaign ex_world) = 0"
  by (simp add: loop_defs contacts_of_def ex_defs)

theorem status_reduction_witness:
  "fst (process_campaign ex_fromisoformat post_ok january False ex_campaign ex_world) = (True, 1, 0)
   \<and> (\<exists>c'. find_one ''c1'' (campaigns (snd (process_campaign ex_fromisoformat post_ok january False ex_campaign ex_world))) = Some c'
     \<and> status c' = ''scheduled'')"
proof -
  have due: "dates_to_process ex_fromisoformat january ex_campaign \<noteq> []"
    by (simp add: ex_due)
  have contacts: "contacts_of ex_campaign ex_world \<noteq> []"
    by (simp add: ex_contacts)
  have "\<not> set (scheduledDates ex_campaign) \<subseteq> set (sentDates ex_campaign) \<union> set (dates_to_process ex_fromisoformat january ex_campaign)"
    by (simp add: ex_due) (simp add: ex_campaign_def)
  with status_reduction [OF ex_found due contacts ex_email_enabled, of post_ok False]
  show ?thesis
    by (simp add: ex_loop_ok ex_campaign_id) blast
qed

section \<open>The send loop: invariants\<close>



lemma retry_key_inject [simp]: "(retry_key a = retry_key b) = (a = b)"
  by (simp add: retry_key_def)











section \<open>A sweep, document by document\<close>

lemma process_campaign_users:
  "users (snd (process_campaign fi post now dr c w)) = users w"
  by (simp add: process_campaign_def Let_def)

lemma process_campaign_ids:
  "map campaign_id (campaigns (snd (process_campaign fi post now dr c w))) = map campaign_id (campaigns w)"
  by (simp add: process_campaign_def Let_def ids_update_one)

lemma process_campaign_frame:
  "j \<noteq> campaign_id c \<Longrightarrow>
   find_one j (campaigns (snd (process_campaign fi post now dr c w))) = find_one j (campaigns w)"
  by (simp add: process_campaign_def Let_def find_one_update_one)

lemma process_all_ids:
  "map campaign_id (campaigns (snd (process_all fi post clock dr k cs (tot, w)))) = map campaign_id (campaigns w)"
proof (induction cs arbitrary: k tot w)
  case Nil
  then show ?case by simp
next
  case (Cons c cs)
  obtain n s f where tot: "tot = (n, s, f)" by (cases tot) auto
  obtain p s1 f1 w1 where pc: "process_campaign fi post (clock k) dr c w = ((p, s1, f1), w1)"
    by (cases "process_campaign fi post (clock k) dr c w") auto
  have "map campaign_id (campaigns w1) = map campaign_id (campaigns w)"
    using process_campaign_ids [of fi post "clock k" dr c w] pc by simp
  with Cons.IH [of "Suc k" _ w1] show ?case
    by (simp add: tot pc)
qed

lemma process_all_view:
  assumes step: "\<And>c w k. find_one (campaign_id c) (campaigns w) = Some c \<Longrightarrow>
             \<exists>c'. find_one (campaign_id c) (campaigns (snd (process_campaign fi post (clock k) dr c w))) = Some c'
                  \<and> R c c'"
    and "distinct (map campaign_id cs)"
    and "\<forall>c\<in>set cs. find_one (campaign_id c) (campaigns w) = Some c"
    and "find_one i (campaigns w) = Some d"
  shows "\<exists>d'. find_one i (campaigns (snd (process_all fi post clock dr k cs (tot, w)))) = Some d'
            \<and> (if d \<in> set cs then R d d' else d' = d)"
  using assms(2-)
proof (induction cs arbitrary: k tot w d)
  case Nil
  then show ?case by simp
next
  case (Cons c cs)
  obtain n s f where tot: "tot = (n, s, f)" by (cases tot) auto
  obtain p s1 f1 w1 where pc: "process_campaign fi post (clock k) dr c w = ((p, s1, f1), w1)"
    by (cases "process_campaign fi post (clock k) dr c w") auto
  have w1: "w1 = snd (process_campaign fi post (clock k) dr c w)" by (simp add: pc)
  from Cons.prems(2) have c_found: "find_one (campaign_id c) (campaigns w) = Some c" by simp
  from step [OF c_found, of k] obtain c' where c': "find_one (campaign_id c) (campaigns w1) = Some c'" "R c c'"
    unfolding w1 by blast
  have frame: "\<And>j. j \<noteq> campaign_id c \<Longrightarrow> find_one j (campaigns w1) = find_one j (campaigns w)"
    by (simp add: w1 process_campaign_frame)
  have dist: "distinct (map campaign_id cs)" using Cons.prems(1) by simp
  have notin: "\<forall>c2\<in>set cs. campaign_id c2 \<noteq> campaign_id c" using Cons.prems(1) by (fastforce simp: image_iff)
  then have found: "\<forall>c2\<in>set cs. find_one (campaign_id c2) (campaigns w1) = Some c2"
    using Cons.prems(2) frame by simp
  have run: "process_all fi post clock dr k (c # cs) (tot, w) =
      process_all fi post clock dr (Suc k) cs
        (if p then ((n + 1, s + s1, f + f1), w1) else ((n, s, f), w1))"
    by (simp add: tot pc)
  have d_id: "campaign_id d = i" using Cons.prems(3) by (rule find_one_id)
  show ?case
  proof (cases "i = campaign_id c")
    case True
    with Cons.prems(3) c_found have dc: "d = c" by simp
    have "campaign_id c' = campaign_id c" using c'(1) by (rule find_one_id)
    with notin have c'_notin: "c' \<notin> set cs" by auto
    have "find_one i (campaigns w1) = Some c'" using c'(1) True by simp
    from Cons.IH [OF dist found this] c'_notin
    have "\<And>tot'. \<exists>d'. find_one i (campaigns (snd (process_all fi post clock dr (Suc k) cs (tot', w1)))) = Some d' \<and> d' = c'"
      by simp
    with c'(2) dc show ?thesis
      by (simp add: run)
  next
    case False
    then have "find_one i (campaigns w1) = Some d" using frame Cons.prems(3) by simp
    from Cons.IH [OF dist found this]
    have "\<And>tot'. \<exists>d'. find_one i (campaigns (snd (process_all fi post clock dr (Suc k) cs (tot', w1)))) = Some d'
            \<and> (if d \<in> set cs then R d d' else d' = d)" by simp
    moreover have "d \<noteq> c" using False d_id by auto
    ultimately show ?thesis by (simp add: run)
  qed
qed


lemma run_scheduler_snd:
  "snd (run_scheduler fi post clock dr w) =
     (if filter selected (campaigns w) = [] then w
      else snd (process_all fi post clock dr 1 (filter selected (campaigns w)) ((0, 0, 0), w)))"
  by (simp add: run_scheduler_def Let_def split_beta)

lemma run_scheduler_ids:
  "map campaign_id (campaigns (snd (run_scheduler fi post clock dr w))) = map campaign_id (campaigns w)"
  by (simp add: run_scheduler_snd process_all_ids)

lemma run_scheduler_view:
  assumes step: "\<And>c w k. find_one (campaign_id c) (campaigns w) = Some c \<Longrightarrow>
             \<exists>c'. find_one (campaign_id c) (campaigns (snd (process_campaign fi post (clock k) dr c w))) = Some c'
                  \<and> R c c'"
    and dist: "distinct (map campaign_id (campaigns w))"
    and d: "d \<in> set (campaigns w)"
  shows "\<exists>d'. find_one (campaign_id d) (campaigns (snd (run_scheduler fi post clock dr w))) = Some d'
            \<and> (if selected d then R d d' else d' = d)"
proof -
  let ?found = "filter selected (campaigns w)"
  have f: "find_one (campaign_id d) (campaigns w) = Some d" using dist d by (rule find_one_distinct)
  show ?thesis
  proof (cases "?found = []")
    case True
    then have "\<not> selected d" using d by (auto simp: filter_empty_conv)
    with True f show ?thesis by (simp add: run_scheduler_snd)
  next
    case False
    have 1: "distinct (map campaign_id ?found)" using dist by (simp add: distinct_map_filter)
    have 2: "\<forall>c\<in>set ?found. find_one (campaign_id c) (campaigns w) = Some c"
      using dist by (simp add: find_one_distinct)
    from process_all_view [of fi post clock dr R, OF step 1 2 f, of 1 "(0, 0, 0)"] False d
    show ?thesis by (simp add: run_scheduler_snd)
  qed
qed


lemma run_scheduler_users: "users (snd (run_scheduler fi post clock dr w)) = users w"
proof -
  have "\<And>k tot w. users (snd (process_all fi post clock dr k cs (tot, w))) = users w" for cs
  proof (induction cs)
    case Nil
    show ?case by simp
  next
    case (Cons c cs)
    obtain n s f where tot: "tot = (n, s, f)" by (cases tot) auto
    obtain p s1 f1 w1 where pc: "process_campaign fi post (clock k) dr c w = ((p, s1, f1), w1)"
      by (cases "process_campaign fi post (clock k) dr c w") auto
    have "users w1 = users w" using process_campaign_users [of fi post "clock k" dr c w] pc by simp
    with Cons.IH [of "Suc k" _ w1] show ?case by (simp add: tot pc)
  qed
  then show ?thesis by (simp add: run_scheduler_snd)
qed

lemma same_ids_mem:
  assumes "map campaign_id ds' = map campaign_id ds" and "d' \<in> set ds'"
  shows "\<exists>d\<in>set ds. campaign_id d = campaign_id d'"
proof -
  from assms(2) have "campaign_id d' \<in> set (map campaign_id ds')" by simp
  with assms(1) have "campaign_id d' \<in> set (map campaign_id ds)" by simp
  then show ?thesis by auto
qed

text \<open>After a sweep over a store with distinct ids, every document comes from the document of
  the same id before the sweep: unchanged when that was not selected, related by \<open>R\<close>
  otherwise.\<close>

lemma run_scheduler_docs:
  assumes step: "\<And>c w k. find_one (campaign_id c) (campaigns w) = Some c \<Longrightarrow>
             \<exists>c'. find_one (campaign_id c) (campaigns (snd (process_campaign fi post (clock k) dr c w))) = Some c'
                  \<and> R c c'"
    and dist: "distinct (map campaign_id (campaigns w))"
    and d': "d' \<in> set (campaigns (snd (run_scheduler fi post clock dr w)))"
  shows "\<exists>d\<in>set (campaigns w). campaign_id d = campaign_id d' \<and> (if selected d then R d d' else d' = d)"
proof -
  let ?w' = "snd (run_scheduler fi post clock dr w)"
  have ids: "map campaign_id (campaigns ?w') = map campaign_id (campaigns w)"
    by (rule run_scheduler_ids)
  from same_ids_mem [OF ids d'] obtain d where d: "d \<in> set (campaigns w)" "campaign_id d = campaign_id d'"
    by blast
  from run_scheduler_view [of fi post clock dr R, OF step dist d(1)]
  obtain d2 where d2: "find_one (campaign_id d) (campaigns ?w') = Some d2"
      "if selected d then R d d2 else d2 = d" by blast
  have "distinct (map campaign_id (campaigns ?w'))" using ids dist by simp
  from find_one_distinct [OF this d'] d(2) d2(1) have "d2 = d'" by simp
  with d d2(2) show ?thesis by blast
qed

section \<open>The paths of \<open>process_campaign\<close>, on the stored document\<close>

lemma set_addToSet_each: "set (addToSet_each arr ds) = set arr \<union> set ds"
proof -
  have "set (fold (\<lambda>d acc. if d \<in> set acc then acc else acc @ [d]) ds arr) = set arr \<union> set ds" for arr
    by (induction ds arbitrary: arr) auto
  then show ?thesis by (simp add: addToSet_each_def)
qed

text \<open>The document persisted by \<open>process_campaign\<close>, path by path, for a campaign that is
  the stored document of its id.\<close>

lemma process_campaign_cases:
  assumes "find_one (campaign_id c) (campaigns w) = Some c"
  obtains
    (skip) "dates_to_process fi now c = []"
      "process_campaign fi post now dr c w = ((False, 0, 0), w)"
  | (no_contacts) w' where "dates_to_process fi now c \<noteq> []" "contacts_of c w = []"
      "process_campaign fi post now dr c w = ((True, 0, 0), w')"
      "outbox w' = outbox w"
      "find_one (campaign_id c) (campaigns w')
         = Some (c\<lparr>status := ''completed'', updatedAt := isoformat now\<rparr>)"
  | (disabled) w' where "dates_to_process fi now c \<noteq> []" "contacts_of c w \<noteq> []" "\<not> email_enabled c"
      "process_campaign fi post now dr c w = ((True, 0, 0), w')"
      "outbox w' = outbox w"
      "find_one (campaign_id c) (campaigns w')
         = Some (c\<lparr>status := (if set (scheduled_dates c) \<subseteq> set (sentDates c) \<union> set (dates_to_process fi now c)
                                  then ''completed'' else ''scheduled''),
                    updatedAt := isoformat now,
                    sentDates := addToSet_each (sentDates c) (dates_to_process fi now c)\<rparr>)"
  | (send) w' st where "dates_to_process fi now c \<noteq> []" "contacts_of c w \<noteq> []" "email_enabled c"
      "st = send_to_contacts post now dr c w"
      "process_campaign fi post now dr c w = ((True, success_count st, fail_count st), w')"
      "outbox w' = requests st"
      "find_one (campaign_id c) (campaigns w')
         = Some (c\<lparr>status := (if fail_count st > 0 \<and> success_count st = 0 then ''failed''
                                  else if set (scheduled_dates c) \<subseteq> set (sentDates c) \<union> set (dates_to_process fi now c)
                                  then ''completed'' else ''scheduled''),
                    results := cur_results st,
                    sentDates := remdups (sentDates c @ dates_to_process fi now c),
                    retryCounts := retry_counts st,
                    updatedAt := isoformat now,
                    lastProcessedAt := Some (isoformat now)\<rparr>)"
proof (cases "dates_to_process fi now c = []")
  case True
  then show ?thesis using skip by (simp add: process_campaign_not_due)
next
  case due: False
  show ?thesis
  proof (cases "contacts_of c w = []")
    case True
    with due assms show ?thesis
      using no_contacts by (simp add: process_campaign_no_contacts find_one_update_one)
  next
    case contacts: False
    show ?thesis
    proof (cases "email_enabled c")
      case False
      with due contacts assms show ?thesis
        using disabled by (simp add: process_campaign_email_disabled find_one_update_one)
    next
      case True
      with due contacts assms show ?thesis
        using send [of "send_to_contacts post now dr c w"]
        by (simp add: process_campaign_send find_one_update_one)
    qed
  qed
qed

section \<open>No contact, or no email channel\<close>

lemma selected_none_resolves:
  assumes "targetType c \<noteq> ''all''"
    and "set (selectedContacts c) \<inter> contact_id ` set (users w) = {}"
  shows "contacts_of c w = []"
  using assms by (auto simp: contacts_of_def filter_empty_conv)

text \<open>
  Claim C7. When a date is due and the target resolves to no contact (for instance a
  \<open>selected\<close> target none of whose ids is in the directory), the campaign counts as
  processed with zero successes and zero failures, the stored document gets the status
  \<open>completed\<close> (and the update time) and nothing else changes in it: no result record is
  added, and no request is posted.
\<close>

theorem no_contacts_completed:
  assumes "find_one (campaign_id c) (campaigns w) = Some c"
    and "dates_to_process fi now c \<noteq> []"
    and "contacts_of c w = []"
  shows "fst (process_campaign fi post now dr c w) = (True, 0, 0)
       \<and> find_one (campaign_id c) (campaigns (snd (process_campaign fi post now dr c w)))
           = Some (c\<lparr>status := ''completed'', updatedAt := isoformat now\<rparr>)
       \<and> results (c\<lparr>status := ''completed'', updatedAt := isoformat now\<rparr>) = results c
       \<and> outbox (snd (process_campaign fi post now dr c w)) = outbox w"
  using assms
  by (cases rule: process_campaign_cases [of c w fi now post dr]) auto

lemma ex_selected_due:
  "dates_to_process ex_fromisoformat january ex_selected = [''2024-01-01T00:00:00Z'']"
  by (simp add: ex_selected_def ex_defs dates_to_process_def scheduled_dates_def
      parse_scheduled_date_def replace_Z_def)

theorem no_contacts_completed_witness:
  "fst (process_campaign ex_fromisoformat post_ok january False ex_selected (world_of ex_selected)) = (True, 0, 0)
   \<and> find_one ''c1'' (campaigns (snd (process_campaign ex_fromisoformat post_ok january False ex_selected (world_of ex_selected))))
       = Some (ex_selected\<lparr>status := ''completed'', updatedAt := ''2024-01-01T01:00:00+00:00''\<rparr>)
   \<and> outbox (snd (process_campaign ex_fromisoformat post_ok january False ex_selected (world_of ex_selected))) = []"
proof -
  have found: "find_one (campaign_id ex_selected) (campaigns (world_of ex_selected)) = Some ex_selected"
    by (simp add: world_of_def)
  have due: "dates_to_process ex_fromisoformat january ex_selected \<noteq> []"
    by (simp add: ex_selected_due)
  have "contacts_of ex_selected (world_of ex_selected) = []"
    by (rule selected_none_resolves) (simp_all add: ex_selected_def world_of_def ex_contact_def)
  from no_contacts_completed [OF found due this, of post_ok False]
  show ?thesis
    by (simp add: ex_selected_def ex_campaign_id january_def world_of_def)
qed

text \<open>
  Claim C6. When a date is due, a contact resolves and the email channel is disabled, no
  request is posted and the counts are zero; the stored sent dates become, as a set, the
  sent dates joined with the due dates; the status is \<open>completed\<close> exactly when these cover
  the scheduled dates and \<open>scheduled\<close> otherwise; results and retry counts are untouched.
\<close>

theorem email_disabled_folds_dates:
  assumes "find_one (campaign_id c) (campaigns w) = Some c"
    and "dates_to_process fi now c \<noteq> []"
    and "contacts_of c w \<noteq> []"
    and "\<not> email_enabled c"
  shows "fst (process_campaign fi post now dr c w) = (True, 0, 0)
       \<and> outbox (snd (process_campaign fi post now dr c w)) = outbox w
       \<and> (\<exists>c'. find_one (campaign_id c) (campaigns (snd (process_campaign fi post now dr c w))) = Some c'
             \<and> set (sentDates c') = set (sentDates c) \<union> set (dates_to_process fi now c)
             \<and> (status c' = ''completed'')
                 = (set (scheduledDates c) \<subseteq> set (sentDates c) \<union> set (dates_to_process fi now c))
             \<and> (status c' = ''completed'' \<or> status c' = ''scheduled'')
             \<and> results c' = results c \<and> retryCounts c' = retryCounts c)"
  using assms covers_raw_iff [OF assms(2)]
  by (cases rule: process_campaign_cases [of c w fi now post dr])
     (auto simp: set_addToSet_each)

lemma ex_whatsapp_due:
  "dates_to_process ex_fromisoformat january ex_whatsapp = [''2024-01-01T00:00:00Z'']"
  by (simp add: ex_whatsapp_def ex_defs dates_to_process_def scheduled_dates_def
      parse_scheduled_date_def replace_Z_def)

theorem email_disabled_folds_dates_witness:
  "fst (process_campaign ex_fromisoformat post_ok january False ex_whatsapp (world_of ex_whatsapp)) = (True, 0, 0)
   \<and> outbox (snd (process_campaign ex_fromisoformat post_ok january False ex_whatsapp (world_of ex_whatsapp))) = []
   \<and> (\<exists>c'. find_one ''c1'' (campaigns (snd (process_campaign ex_fromisoformat post_ok january False ex_whatsapp (world_of ex_whatsapp)))) = Some c'
         \<and> set (sentDates c') = {''2024-01-01T00:00:00Z''}
         \<and> status c' = ''scheduled'')"
proof -
  have found: "find_one (campaign_id ex_whatsapp) (campaigns (world_of ex_whatsapp)) = Some ex_whatsapp"
    by (simp add: world_of_def)
  have due: "dates_to_process ex_fromisoformat january ex_whatsapp \<noteq> []"
    by (simp add: ex_whatsapp_due)
  have contacts: "contacts_of ex_whatsapp (world_of ex_whatsapp) \<noteq> []"
    by (simp add: contacts_of_def ex_whatsapp_def ex_campaign_def world_of_def)
  have disabled: "\<not> email_enabled ex_whatsapp"
    by (simp add: email_enabled_def ex_whatsapp_def dict_get_def)
  have id: "campaign_id ex_whatsapp = ''c1''" by (simp add: ex_whatsapp_def ex_campaign_id)
  have sent: "sentDates ex_whatsapp = []" "scheduledDates ex_whatsapp = [''2024-01-01T00:00:00Z'', ''2024-02-01T00:00:00Z'']"
    by (simp_all add: ex_whatsapp_def ex_campaign_def)
  from email_disabled_folds_dates [OF found due contacts disabled, of post_ok False]
  show ?thesis
    by (simp add: ex_whatsapp_due id sent world_of_def) blast
qed

section \<open>Nothing due\<close>

lemma process_all_nothing_due:
  assumes "\<forall>c\<in>set cs. \<forall>k. dates_to_process fi (clock k) c = []"
  shows "process_all fi post clock dr k cs (tot, w) = (tot, w)"
  using assms
proof (induction cs arbitrary: k)
  case Nil
  show ?case by simp
next
  case (Cons c cs)
  obtain n s f where tot: "tot = (n, s, f)" by (cases tot) auto
  from Cons.prems have "dates_to_process fi (clock k) c = []" by simp
  then have "process_campaign fi post (clock k) dr c w = ((False, 0, 0), w)"
    by (rule process_campaign_not_due)
  moreover from Cons.prems have "\<forall>c\<in>set cs. \<forall>k. dates_to_process fi (clock k) c = []" by simp
  ultimately show ?case using Cons.IH [of "Suc k"] by (simp add: tot)
qed

lemma run_scheduler_nothing_due:
  assumes "\<forall>c\<in>set (campaigns w). selected c \<longrightarrow> (\<forall>k. dates_to_process fi (clock k) c = [])"
  shows "snd (run_scheduler fi post clock dr w) = w"
    and "fst (run_scheduler fi post clock dr w) = None \<or> fst (run_scheduler fi post clock dr w) = Some (0, 0, 0)"
proof -
  have "\<forall>c\<in>set (filter selected (campaigns w)). \<forall>k. dates_to_process fi (clock k) c = []"
    using assms by simp
  then have "process_all fi post clock dr 1 (filter selected (campaigns w)) ((0, 0, 0), w) = ((0, 0, 0), w)"
    by (rule process_all_nothing_due)
  then show "snd (run_scheduler fi post clock dr w) = w"
    and "fst (run_scheduler fi post clock dr w) = None \<or> fst (run_scheduler fi post clock dr w) = Some (0, 0, 0)"
    by (simp_all add: run_scheduler_def Let_def)
qed

lemma scheduled_dates_cong:
  "scheduledAt c' = scheduledAt c \<Longrightarrow> scheduledDates c' = scheduledDates c \<Longrightarrow>
   scheduled_dates c' = scheduled_dates c"
  by (simp add: scheduled_dates_def split: option.splits)

lemma nothing_due_after:
  assumes "scheduled_dates c' = scheduled_dates c"
    and "set (sentDates c') = set (sentDates c) \<union> set (dates_to_process fi now c)"
  shows "dates_to_process fi now c' = []"
  using assms
  by (auto simp: dates_to_process_def filter_empty_conv split: option.splits)

text \<open>Once processed at a time, a stored campaign that is still selected has nothing due at
  that time.\<close>

lemma process_campaign_settles:
  assumes "find_one (campaign_id c) (campaigns w) = Some c"
  shows "\<exists>c'. find_one (campaign_id c) (campaigns (snd (process_campaign fi post now dr c w))) = Some c'
           \<and> (selected c' \<longrightarrow> dates_to_process fi now c' = [])"
  using assms
proof (cases rule: process_campaign_cases [of c w fi now post dr])
  case skip
  with assms show ?thesis by simp
next
  case (no_contacts w')
  then show ?thesis by (simp add: selected_def)
next
  case (disabled w')
  let ?c' = "c\<lparr>status := (if set (scheduled_dates c) \<subseteq> set (sentDates c) \<union> set (dates_to_process fi now c)
                                  then ''completed'' else ''scheduled''),
                    updatedAt := isoformat now,
                    sentDates := addToSet_each (sentDates c) (dates_to_process fi now c)\<rparr>"
  have "dates_to_process fi now ?c' = []"
  proof (rule nothing_due_after [of _ c])
    show "scheduled_dates ?c' = scheduled_dates c" by (rule scheduled_dates_cong) simp_all
    show "set (sentDates ?c') = set (sentDates c) \<union> set (dates_to_process fi now c)"
      by (simp add: set_addToSet_each)
  qed
  with disabled show ?thesis by simp
next
  case (send w' st)
  let ?c' = "c\<lparr>status := (if fail_count st > 0 \<and> success_count st = 0 then ''failed''
                                  else if set (scheduled_dates c) \<subseteq> set (sentDates c) \<union> set (dates_to_process fi now c)
                                  then ''completed'' else ''scheduled''),
                    results := cur_results st,
                    sentDates := remdups (sentDates c @ dates_to_process fi now c),
                    retryCounts := retry_counts st,
                    updatedAt := isoformat now,
                    lastProcessedAt := Some (isoformat now)\<rparr>"
  have "dates_to_process fi now ?c' = []"
  proof (rule nothing_due_after [of _ c])
    show "scheduled_dates ?c' = scheduled_dates c" by (rule scheduled_dates_cong) simp_all
    show "set (sentDates ?c') = set (sentDates c) \<union> set (dates_to_process fi now c)"
      by simp
  qed
  with send show ?thesis by simp
qed

lemma run_scheduler_settles:
  assumes dist: "distinct (map campaign_id (campaigns w))"
    and d': "d' \<in> set (campaigns (snd (run_scheduler fi post (\<lambda>k. now) dr w)))"
    and sel: "selected d'"
  shows "dates_to_process fi now d' = []"
proof -
  from run_scheduler_docs [of fi post "\<lambda>k. now" dr "\<lambda>c c'. selected c' \<longrightarrow> dates_to_process fi now c' = []" w d',
      OF process_campaign_settles dist d']
  obtain d where "d \<in> set (campaigns w)"
    "if selected d then selected d' \<longrightarrow> dates_to_process fi now d' = [] else d' = d"
    by blast
  with sel show ?thesis by (cases "selected d") auto
qed

text \<open>
  Claim C4. A campaign whose due set is empty (every scheduled date is in the future,
  already sent or unparseable) is not counted as processed, and processing it leaves the
  whole world as it is: no store write, no request. Hence a sweep in which no selected
  campaign has a due date changes nothing and reports no count. In particular, over a store
  with distinct ids, a second sweep at the same clock reading as the first finds nothing
  due: it changes nothing and reports no count, whatever the network would answer.
\<close>

theorem nothing_due_no_effect:
  "(dates_to_process fi now c = [] \<longrightarrow> process_campaign fi post now dr c w = ((False, 0, 0), w))
   \<and> ((\<forall>c\<in>set (campaigns w). selected c \<longrightarrow> (\<forall>k. dates_to_process fi (clock k) c = [])) \<longrightarrow>
        snd (run_scheduler fi post clock dr w) = w
        \<and> (fst (run_scheduler fi post clock dr w) = None
            \<or> fst (run_scheduler fi post clock dr w) = Some (0, 0, 0)))
   \<and> (distinct (map campaign_id (campaigns w)) \<longrightarrow>
        snd (run_scheduler fi post2 (\<lambda>k. now) dr2 (snd (run_scheduler fi post (\<lambda>k. now) dr w)))
          = snd (run_scheduler fi post (\<lambda>k. now) dr w)
        \<and> (fst (run_scheduler fi post2 (\<lambda>k. now) dr2 (snd (run_scheduler fi post (\<lambda>k. now) dr w))) = None
            \<or> fst (run_scheduler fi post2 (\<lambda>k. now) dr2 (snd (run_scheduler fi post (\<lambda>k. now) dr w)))
                = Some (0, 0, 0)))"
proof (intro conjI impI)
  assume "dates_to_process fi now c = []"
  then show "process_campaign fi post now dr c w = ((False, 0, 0), w)"
    by (rule process_campaign_not_due)
next
  assume a: "\<forall>c\<in>set (campaigns w). selected c \<longrightarrow> (\<forall>k. dates_to_process fi (clock k) c = [])"
  show "snd (run_scheduler fi post clock dr w) = w" using a by (rule run_scheduler_nothing_due)
  show "fst (run_scheduler fi post clock dr w) = None \<or> fst (run_scheduler fi post clock dr w) = Some (0, 0, 0)"
    using a by (rule run_scheduler_nothing_due)
next
  assume dist: "distinct (map campaign_id (campaigns w))"
  let ?w1 = "snd (run_scheduler fi post (\<lambda>k. now) dr w)"
  have a: "\<forall>c\<in>set (campaigns ?w1). selected c \<longrightarrow> (\<forall>k. dates_to_process fi ((\<lambda>k. now) k) c = [])"
    using run_scheduler_settles [OF dist] by blast
  show "snd (run_scheduler fi post2 (\<lambda>k. now) dr2 ?w1) = ?w1"
    using a by (rule run_scheduler_nothing_due)
  show "fst (run_scheduler fi post2 (\<lambda>k. now) dr2 ?w1) = None
      \<or> fst (run_scheduler fi post2 (\<lambda>k. now) dr2 ?w1) = Some (0, 0, 0)"
    using a by (rule run_scheduler_nothing_due)
qed


lemma ex_due_december: "dates_to_process ex_fromisoformat december ex_campaign = []"
  by (simp add: ex_defs december_def dates_to_process_def scheduled_dates_def
      parse_scheduled_date_def replace_Z_def)

theorem nothing_due_no_effect_witness:
  "process_campaign ex_fromisoformat post_ok december False ex_campaign ex_world = ((False, 0, 0), ex_world)
   \<and> snd (run_scheduler ex_fromisoformat post_ok (\<lambda>k. december) False ex_world) = ex_world
   \<and> snd (run_scheduler ex_fromisoformat post_down (\<lambda>k. january) False
             (snd (run_scheduler ex_fromisoformat post_ok (\<lambda>k. january) False ex_world)))
       = snd (run_scheduler ex_fromisoformat post_ok (\<lambda>k. january) False ex_world)"
proof -
  have h2: "\<forall>c\<in>set (campaigns ex_world). selected c \<longrightarrow>
              (\<forall>k. dates_to_process ex_fromisoformat ((\<lambda>k. december) k) c = [])"
    by (simp add: ex_world_def ex_due_december)
  have h3: "distinct (map campaign_id (campaigns ex_world))"
    by (simp add: ex_world_def)
  from nothing_due_no_effect [where fi = ex_fromisoformat and now = december and c = ex_campaign
      and post = post_ok and dr = False and w = ex_world and clock = "\<lambda>k. december"]
    nothing_due_no_effect [where fi = ex_fromisoformat and now = january and w = ex_world
      and post = post_ok and dr = False and ?post2.0 = post_down and ?dr2.0 = False]
    h2 h3 ex_due_december
  show ?thesis by simp
qed

section \<open>Any number of sweeps\<close>

lemma main_loop_ids:
  "map campaign_id (campaigns (main_loop fi post clock dr j n w)) = map campaign_id (campaigns w)"
  by (induction n arbitrary: j w) (simp_all add: run_scheduler_ids)

text \<open>Any number of sweeps over a store with distinct ids: every document comes from the
  document of the same id at the start, through a relation that each processing respects.\<close>

lemma main_loop_docs:
  assumes step: "\<And>c w j k. find_one (campaign_id c) (campaigns w) = Some c \<Longrightarrow>
             \<exists>c'. find_one (campaign_id c) (campaigns (snd (process_campaign fi post (clock j k) dr c w))) = Some c'
                  \<and> R c c'"
    and refl: "\<And>c. R c c"
    and trans: "\<And>a b c. R a b \<Longrightarrow> R b c \<Longrightarrow> R a c"
    and dist: "distinct (map campaign_id (campaigns w))"
    and d': "d' \<in> set (campaigns (main_loop fi post clock dr j n w))"
  shows "\<exists>d\<in>set (campaigns w). campaign_id d = campaign_id d' \<and> R d d'"
  using dist d'
proof (induction n arbitrary: j w)
  case 0
  then show ?case using refl by auto
next
  case (Suc n)
  let ?w1 = "snd (run_scheduler fi post (clock j) dr w)"
  have dist1: "distinct (map campaign_id (campaigns ?w1))"
    using Suc.prems(1) by (simp add: run_scheduler_ids)
  from Suc.prems(2) have "d' \<in> set (campaigns (main_loop fi post clock dr (Suc j) n ?w1))" by simp
  from Suc.IH [OF dist1 this] obtain d1 where d1: "d1 \<in> set (campaigns ?w1)"
    "campaign_id d1 = campaign_id d'" "R d1 d'" by blast
  from run_scheduler_docs [of fi post "clock j" dr R w d1, OF step Suc.prems(1) d1(1)]
  obtain d where d: "d \<in> set (campaigns w)" "campaign_id d = campaign_id d1"
    "if selected d then R d d1 else d1 = d" by blast
  have "R d d1" using d(3) refl by (cases "selected d") auto
  with d1 d trans show ?case by (metis (no_types))
qed

section \<open>Sent dates and scheduled dates\<close>

text \<open>The definitions unfolded to run a sweep on the example data.\<close>

lemmas sweep_defs = run_scheduler_def selected_def process_campaign_def dates_to_process_def
  scheduled_dates_def parse_scheduled_date_def replace_Z_def contacts_of_def email_enabled_def
  subject_of_def addToSet_each_def

text \<open>Processing never writes \<open>scheduledAt\<close> or \<open>scheduledDates\<close>, and what it adds to the
  sent dates are scheduled dates of the normalised list.\<close>

lemma process_campaign_sent_dates:
  assumes "find_one (campaign_id c) (campaigns w) = Some c"
  shows "\<exists>c'. find_one (campaign_id c) (campaigns (snd (process_campaign fi post now dr c w))) = Some c'
           \<and> scheduledAt c' = scheduledAt c \<and> scheduledDates c' = scheduledDates c
           \<and> set (sentDates c') \<subseteq> set (sentDates c) \<union> set (scheduled_dates c)"
  using assms
proof (cases rule: process_campaign_cases [of c w fi now post dr])
  case skip
  with assms show ?thesis by simp
next
  case (no_contacts w')
  then show ?thesis by simp
next
  case (disabled w')
  have "set (sentDates c) \<union> set (dates_to_process fi now c)
      \<subseteq> set (sentDates c) \<union> set (scheduled_dates c)"
    using due_subset [of fi now c] by blast
  with disabled(4,6) show ?thesis by (simp add: set_addToSet_each)
next
  case (send w' st)
  have "set (sentDates c) \<union> set (dates_to_process fi now c)
      \<subseteq> set (sentDates c) \<union> set (scheduled_dates c)"
    using due_subset [of fi now c] by blast
  with send(5,7) show ?thesis by simp
qed

text \<open>
  Claim C2, amended. The scheduler never writes \<open>scheduledAt\<close> or \<open>scheduledDates\<close>; for a
  campaign given by a single \<open>scheduledAt\<close> it works on the normalised one-element list.
  Over a store with distinct ids, after any number of sweeps every stored sent date of a
  campaign is one of its normalised scheduled dates or was a sent date at the start. So
  for a campaign whose sent dates are among its normalised scheduled dates at the start
  (for instance with no sent dates), they still are after the sweeps; and they are among
  the stored \<open>scheduledDates\<close> whenever that list is not empty.
\<close>

theorem sent_dates_within_scheduled:
  assumes "distinct (map campaign_id (campaigns w))"
    and "d \<in> set (campaigns w)"
    and "d' \<in> set (campaigns (main_loop fi post clock dr j n w))"
    and "campaign_id d' = campaign_id d"
  shows "scheduledAt d' = scheduledAt d \<and> scheduledDates d' = scheduledDates d
       \<and> set (sentDates d') \<subseteq> set (sentDates d) \<union> set (scheduled_dates d)
       \<and> (set (sentDates d) \<subseteq> set (scheduled_dates d) \<longrightarrow>
            set (sentDates d') \<subseteq> set (scheduled_dates d')
            \<and> (scheduledDates d' \<noteq> [] \<longrightarrow> set (sentDates d') \<subseteq> set (scheduledDates d')))"
proof -
  let ?R = "\<lambda>c c'. scheduledAt c' = scheduledAt c \<and> scheduledDates c' = scheduledDates c
       \<and> set (sentDates c') \<subseteq> set (sentDates c) \<union> set (scheduled_dates c)"
  have "\<exists>d0\<in>set (campaigns w). campaign_id d0 = campaign_id d' \<and> ?R d0 d'"
  proof (rule main_loop_docs [of fi post clock dr ?R, OF _ _ _ assms(1,3)])
    fix c and w :: world and j k
    assume "find_one (campaign_id c) (campaigns w) = Some c"
    then show "\<exists>c'. find_one (campaign_id c) (campaigns (snd (process_campaign fi post (clock j k) dr c w))) = Some c'
        \<and> ?R c c'"
      by (rule process_campaign_sent_dates)
  next
    fix c show "?R c c" by simp
  next
    fix a b c assume ab: "?R a b" and bc: "?R b c"
    have sb: "scheduled_dates b = scheduled_dates a"
      using ab by (intro scheduled_dates_cong) simp_all
    have "set (sentDates c) \<subseteq> set (sentDates b) \<union> set (scheduled_dates a)"
      using bc sb by simp
    moreover have "set (sentDates b) \<subseteq> set (sentDates a) \<union> set (scheduled_dates a)"
      using ab by simp
    ultimately have "set (sentDates c) \<subseteq> set (sentDates a) \<union> set (scheduled_dates a)"
      by blast
    with ab bc show "?R a c" by simp
  qed
  then obtain d0 where d0: "d0 \<in> set (campaigns w)" "campaign_id d0 = campaign_id d'" "?R d0 d'" by blast
  have "d0 = d" using assms(1,2,4) d0(1,2)
    by (metis find_one_distinct option.inject)
  with d0(3) have r1: "scheduledAt d' = scheduledAt d" and r2: "scheduledDates d' = scheduledDates d"
    and r3: "set (sentDates d') \<subseteq> set (sentDates d) \<union> set (scheduled_dates d)" by simp_all
  have same: "scheduled_dates d' = scheduled_dates d" using r1 r2 by (rule scheduled_dates_cong)
  have raw: "scheduledDates d' \<noteq> [] \<longrightarrow> scheduled_dates d' = scheduledDates d'"
    by (simp add: scheduled_dates_def split: option.splits)
  have "set (sentDates d) \<subseteq> set (scheduled_dates d) \<longrightarrow>
            set (sentDates d') \<subseteq> set (scheduled_dates d')
            \<and> (scheduledDates d' \<noteq> [] \<longrightarrow> set (sentDates d') \<subseteq> set (scheduledDates d'))"
  proof
    assume "set (sentDates d) \<subseteq> set (scheduled_dates d)"
    with r3 have "set (sentDates d') \<subseteq> set (scheduled_dates d)" by blast
    with same have sub: "set (sentDates d') \<subseteq> set (scheduled_dates d')" by simp
    with raw show "set (sentDates d') \<subseteq> set (scheduled_dates d')
            \<and> (scheduledDates d' \<noteq> [] \<longrightarrow> set (sentDates d') \<subseteq> set (scheduledDates d'))"
      by auto
  qed
  with r1 r2 r3 show ?thesis by blast
qed

lemma ex_single_sweep:
  "campaigns (snd (run_scheduler ex_fromisoformat post_ok (\<lambda>k. january) False (world_of ex_single)))
     = [ex_single\<lparr>status := ''completed'',
          results := [\<lparr>contactId = ''u1'', contactName = ''Ada'', contactEmail = ''ada@example.org'',
                       contactPhone = None, channel = ''email'', rstatus = ''sent'',
                       sentAt = Some ''2024-01-01T01:00:00+00:00''\<rparr>],
          sentDates := [''2024-01-01T00:00:00Z''],
          retryCounts := [],
          updatedAt := ''2024-01-01T01:00:00+00:00'',
          lastProcessedAt := Some ''2024-01-01T01:00:00+00:00''\<rparr>]"
  by (simp add: sweep_defs loop_defs ex_defs ex_single_def world_of_def)

text \<open>
  Claim C2 as stated fails: a campaign scheduled by \<open>scheduledAt\<close> alone, with an empty
  \<open>scheduledDates\<close>, has after one sweep its date in \<open>sentDates\<close> while \<open>scheduledDates\<close>
  is still empty.
\<close>

theorem sent_dates_subset_counterexample:
  "map (\<lambda>c. (scheduledAt c, scheduledDates c, sentDates c)) (campaigns (world_of ex_single))
     = [(Some ''2024-01-01T00:00:00Z'', [], [])]
   \<and> map (\<lambda>c. (scheduledAt c, scheduledDates c, sentDates c))
        (campaigns (snd (run_scheduler ex_fromisoformat post_ok (\<lambda>k. january) False (world_of ex_single))))
     = [(Some ''2024-01-01T00:00:00Z'', [], [''2024-01-01T00:00:00Z''])]
   \<and> \<not> (\<forall>c\<in>set (campaigns (snd (run_scheduler ex_fromisoformat post_ok (\<lambda>k. january) False
                                    (world_of ex_single)))).
          set (sentDates c) \<subseteq> set (scheduledDates c))"
  by (simp add: ex_single_sweep) (simp add: ex_single_def ex_campaign_def world_of_def)

theorem sent_dates_within_scheduled_witness:
  "list_all (\<lambda>d'. scheduledDates d' = scheduledDates ex_campaign
                 \<and> set (sentDates d') \<subseteq> set (scheduledDates d'))
     (campaigns (main_loop ex_fromisoformat post_ok (\<lambda>j k. january) False 0 2 ex_world))"
  unfolding list_all_iff
proof
  fix d' assume d': "d' \<in> set (campaigns (main_loop ex_fromisoformat post_ok (\<lambda>j k. january) False 0 2 ex_world))"
  have 1: "distinct (map campaign_id (campaigns ex_world))" by (simp add: ex_world_def)
  have 2: "ex_campaign \<in> set (campaigns ex_world)" by (simp add: ex_world_def)
  from d' have "campaign_id d' \<in> set (map campaign_id (campaigns (main_loop ex_fromisoformat post_ok (\<lambda>j k. january) False 0 2 ex_world)))"
    by simp
  then have 3: "campaign_id d' = campaign_id ex_campaign"
    by (simp add: main_loop_ids ex_world_def)
  have 4: "set (sentDates ex_campaign) \<subseteq> set (scheduled_dates ex_campaign)"
    by (simp add: ex_campaign_def)
  have 5: "scheduledDates ex_campaign \<noteq> []" by (simp add: ex_campaign_def)
  from sent_dates_within_scheduled [OF 1 2 d' 3] 4
  have eq: "scheduledDates d' = scheduledDates ex_campaign"
    and sub: "scheduledDates d' \<noteq> [] \<longrightarrow> set (sentDates d') \<subseteq> set (scheduledDates d')"
    by blast+
  from eq 5 have "scheduledDates d' \<noteq> []" by simp
  with eq sub
  show "scheduledDates d' = scheduledDates ex_campaign \<and> set (sentDates d') \<subseteq> set (scheduledDates d')"
    by blast
qed

section \<open>Statuses\<close>

lemma unselected_untouched_sweep:
  assumes "distinct (map campaign_id (campaigns w))" and "d \<in> set (campaigns w)" and "\<not> selected d"
  shows "find_one (campaign_id d) (campaigns (snd (run_scheduler fi post clock dr w))) = Some d"
proof -
  have step: "\<And>c (w :: world) k. find_one (campaign_id c) (campaigns w) = Some c \<Longrightarrow>
      \<exists>c'. find_one (campaign_id c) (campaigns (snd (process_campaign fi post (clock k) dr c w))) = Some c' \<and> True"
  proof -
    fix c and w :: world and k assume f: "find_one (campaign_id c) (campaigns w) = Some c"
    show "\<exists>c'. find_one (campaign_id c) (campaigns (snd (process_campaign fi post (clock k) dr c w))) = Some c' \<and> True"
      using f by (cases rule: process_campaign_cases [OF f, of fi "clock k" post dr]) auto
  qed
  from run_scheduler_view [of fi post clock dr "\<lambda>c c'. True" w d, OF step assms(1,2)] assms(3)
  show ?thesis by auto
qed

lemma unselected_untouched:
  assumes "distinct (map campaign_id (campaigns w))" and "d \<in> set (campaigns w)" and "\<not> selected d"
  shows "find_one (campaign_id d) (campaigns (main_loop fi post clock dr j n w)) = Some d"
  using assms(1,2)
proof (induction n arbitrary: j w)
  case 0
  then show ?case by (simp add: find_one_distinct)
next
  case (Suc n)
  let ?w1 = "snd (run_scheduler fi post (clock j) dr w)"
  have "find_one (campaign_id d) (campaigns ?w1) = Some d"
    using Suc.prems assms(3) by (rule unselected_untouched_sweep)
  then have mem: "d \<in> set (campaigns ?w1)" by (rule find_one_mem)
  have "distinct (map campaign_id (campaigns ?w1))" using Suc.prems(1) by (simp add: run_scheduler_ids)
  from Suc.IH [OF this mem] show ?case by simp
qed

text \<open>
  Claim C8, amended. A sweep selects only the campaigns whose status is \<open>scheduled\<close> or
  \<open>sending\<close>. A campaign whose status is \<open>failed\<close> is therefore never processed again:
  over a store with distinct ids, one sweep and any number of sweeps leave its stored
  document exactly as it is, whatever dates it still has to come. For the scheduler,
  \<open>failed\<close> is a final status.
\<close>

theorem failed_is_terminal:
  assumes "distinct (map campaign_id (campaigns w))"
    and "d \<in> set (campaigns w)"
    and "status d = ''failed''"
  shows "\<not> selected d
       \<and> find_one (campaign_id d) (campaigns (snd (run_scheduler fi post clock dr w))) = Some d
       \<and> find_one (campaign_id d) (campaigns (main_loop fi post clocks dr j n w)) = Some d"
proof -
  have "\<not> selected d" using assms(3) by (simp add: selected_def)
  with assms(1,2) show ?thesis
    by (simp add: unselected_untouched_sweep unselected_untouched)
qed

lemma ex_failed_campaigns:
  "campaigns ex_failed_world
     = [ex_campaign\<lparr>status := ''failed'', results := [],
          sentDates := [''2024-01-01T00:00:00Z''],
          retryCounts := [(''u1_email'', 1)],
          updatedAt := ''2024-01-01T01:00:00+00:00'',
          lastProcessedAt := Some ''2024-01-01T01:00:00+00:00''\<rparr>]"
  by (simp add: ex_failed_world_def sweep_defs loop_defs ex_defs)

text \<open>
  Claim C8 as stated fails. The example campaign has two dates; the sweep in January finds
  the endpoint down and stores the status \<open>failed\<close>, with the date of February still to
  come. The sweep in February, with the endpoint up again and that date due, finds no
  campaign and changes nothing. And in general no sweep changes a stored campaign whose
  status is \<open>failed\<close>.
\<close>

theorem failed_not_revived_counterexample:
  "map status (campaigns ex_failed_world) = [''failed'']
   \<and> map (dates_to_process ex_fromisoformat january) (campaigns ex_failed_world) = [[]]
   \<and> map (dates_to_process ex_fromisoformat february) (campaigns ex_failed_world)
       = [[''2024-02-01T00:00:00Z'']]
   \<and> run_scheduler ex_fromisoformat post_ok (\<lambda>k. february) False ex_failed_world
       = (None, ex_failed_world)
   \<and> \<not> (\<exists>fi post clock dr w d.
            distinct (map campaign_id (campaigns w)) \<and> d \<in> set (campaigns w) \<and> status d = ''failed''
            \<and> find_one (campaign_id d) (campaigns (snd (run_scheduler fi post clock dr w))) \<noteq> Some d)"
proof -
  have "\<not> (\<exists>fi post clock dr w d.
            distinct (map campaign_id (campaigns w)) \<and> d \<in> set (campaigns w) \<and> status d = ''failed''
            \<and> find_one (campaign_id d) (campaigns (snd (run_scheduler fi post clock dr w))) \<noteq> Some d)"
    using unselected_untouched_sweep by (auto simp: selected_def)
  moreover have "run_scheduler ex_fromisoformat post_ok (\<lambda>k. february) False ex_failed_world
       = (None, ex_failed_world)"
    by (simp add: run_scheduler_def ex_failed_campaigns selected_def)
  moreover have "map (dates_to_process ex_fromisoformat february) (campaigns ex_failed_world)
       = [[''2024-02-01T00:00:00Z'']]"
    by (simp add: ex_failed_campaigns) (simp add: ex_defs dates_to_process_def scheduled_dates_def
      parse_scheduled_date_def replace_Z_def)
  moreover have "map (dates_to_process ex_fromisoformat january) (campaigns ex_failed_world) = [[]]"
    by (simp add: ex_failed_campaigns) (simp add: ex_defs dates_to_process_def scheduled_dates_def
      parse_scheduled_date_def replace_Z_def)
  ultimately show ?thesis by (simp add: ex_failed_campaigns)
qed

theorem failed_is_terminal_witness:
  "map status (campaigns ex_failed_world) = [''failed'']
   \<and> find_one ''c1'' (campaigns (main_loop ex_fromisoformat post_ok (\<lambda>j k. february) False 0 3 ex_failed_world))
       = find_one ''c1'' (campaigns ex_failed_world)"
proof -
  let ?d = "ex_campaign\<lparr>status := ''failed'', results := [],
          sentDates := [''2024-01-01T00:00:00Z''],
          retryCounts := [(''u1_email'', 1)],
          updatedAt := ''2024-01-01T01:00:00+00:00'',
          lastProcessedAt := Some ''2024-01-01T01:00:00+00:00''\<rparr>"
  have 1: "distinct (map campaign_id (campaigns ex_failed_world))" by (simp add: ex_failed_campaigns)
  have 2: "?d \<in> set (campaigns ex_failed_world)" by (simp add: ex_failed_campaigns)
  have 3: "status ?d = ''failed''" by simp
  from failed_is_terminal [OF 1 2 3, of ex_fromisoformat post_ok _ False "\<lambda>j k. february" 0 3]
  show ?thesis by (simp add: ex_failed_campaigns ex_campaign_id)
qed

lemma process_campaign_status:
  assumes f: "find_one (campaign_id c) (campaigns w) = Some c"
  shows "\<exists>c'. find_one (campaign_id c) (campaigns (snd (process_campaign fi post now dr c w))) = Some c'
           \<and> (c' = c \<or> status c' \<in> {''completed'', ''failed'', ''scheduled''})
           \<and> (fst (fst (process_campaign fi post now dr c w)) \<longrightarrow>
                status c' \<in> {''completed'', ''failed'', ''scheduled''})"
  using f by (cases rule: process_campaign_cases [OF f, of fi now post dr]) auto

text \<open>
  Claim C10. Whenever a campaign is processed, the status stored for it is one of
  \<open>completed\<close>, \<open>failed\<close> and \<open>scheduled\<close>. Through any number of sweeps over a store with
  distinct ids, a stored document is either the document of that id at the start, never
  written, or carries one of these three statuses; so a document that carries \<open>sending\<close>
  after the sweeps is one of the start that was never processed: the scheduler selects the
  status \<open>sending\<close> but never writes it.
\<close>

theorem persisted_status_never_sending:
  "(find_one (campaign_id c) (campaigns w) = Some c \<and> fst (fst (process_campaign fi post now dr c w)) \<longrightarrow>
      (\<exists>c'. find_one (campaign_id c) (campaigns (snd (process_campaign fi post now dr c w))) = Some c'
          \<and> status c' \<in> {''completed'', ''failed'', ''scheduled''}))
   \<and> (distinct (map campaign_id (campaigns w)) \<and> d' \<in> set (campaigns (main_loop fi post clock dr j n w)) \<longrightarrow>
      (\<exists>d\<in>set (campaigns w). campaign_id d = campaign_id d'
          \<and> (d' = d \<or> status d' \<in> {''completed'', ''failed'', ''scheduled''})))
   \<and> (distinct (map campaign_id (campaigns w)) \<and> d' \<in> set (campaigns (main_loop fi post clock dr j n w))
        \<and> status d' = ''sending'' \<longrightarrow> d' \<in> set (campaigns w))"
proof -
  have 1: "find_one (campaign_id c) (campaigns w) = Some c \<and> fst (fst (process_campaign fi post now dr c w)) \<longrightarrow>
      (\<exists>c'. find_one (campaign_id c) (campaigns (snd (process_campaign fi post now dr c w))) = Some c'
          \<and> status c' \<in> {''completed'', ''failed'', ''scheduled''})"
    using process_campaign_status [of c w fi post now dr] by blast
  have 2: "\<exists>d\<in>set (campaigns w). campaign_id d = campaign_id d'
          \<and> (d' = d \<or> status d' \<in> {''completed'', ''failed'', ''scheduled''})"
    if dist: "distinct (map campaign_id (campaigns w))"
      and d': "d' \<in> set (campaigns (main_loop fi post clock dr j n w))"
  proof (rule main_loop_docs [of fi post clock dr
          "\<lambda>c c'. c' = c \<or> status c' \<in> {''completed'', ''failed'', ''scheduled''}", OF _ _ _ dist d'])
    fix c and w :: world and j k
    assume "find_one (campaign_id c) (campaigns w) = Some c"
    from process_campaign_status [OF this, of fi post "clock j k" dr]
    show "\<exists>c'. find_one (campaign_id c) (campaigns (snd (process_campaign fi post (clock j k) dr c w))) = Some c'
           \<and> (c' = c \<or> status c' \<in> {''completed'', ''failed'', ''scheduled''})"
      by blast
  qed auto
  have 3: "d' \<in> set (campaigns w)"
    if "distinct (map campaign_id (campaigns w))"
      and "d' \<in> set (campaigns (main_loop fi post clock dr j n w))"
      and "status d' = ''sending''"
    using 2 [OF that(1,2)] that(3) by auto
  from 1 2 3 show ?thesis by blast
qed

lemma ex_sending_processed:
  "fst (process_campaign ex_fromisoformat post_ok january False ex_sending (world_of ex_sending)) = (True, 1, 0)"
  by (simp add: sweep_defs loop_defs ex_defs ex_sending_def world_of_def)

theorem persisted_status_never_sending_witness:
  "status ex_sending = ''sending''
   \<and> (\<exists>c'. find_one ''c1'' (campaigns (snd (process_campaign ex_fromisoformat post_ok january False
                ex_sending (world_of ex_sending)))) = Some c'
         \<and> status c' \<in> {''completed'', ''failed'', ''scheduled''})
   \<and> list_all (\<lambda>d'. d' = ex_sending \<or> status d' \<in> {''completed'', ''failed'', ''scheduled''})
        (campaigns (main_loop ex_fromisoformat post_ok (\<lambda>j k. january) False 0 2 (world_of ex_sending)))"
proof -
  have f: "find_one (campaign_id ex_sending) (campaigns (world_of ex_sending)) = Some ex_sending"
    by (simp add: world_of_def)
  have id: "campaign_id ex_sending = ''c1''" by (simp add: ex_sending_def ex_campaign_id)
  have dist: "distinct (map campaign_id (campaigns (world_of ex_sending)))" by (simp add: world_of_def)
  have "\<exists>c'. find_one ''c1'' (campaigns (snd (process_campaign ex_fromisoformat post_ok january False
                ex_sending (world_of ex_sending)))) = Some c'
         \<and> status c' \<in> {''completed'', ''failed'', ''scheduled''}"
    using persisted_status_never_sending [where c = ex_sending and w = "world_of ex_sending"
      and fi = ex_fromisoformat and post = post_ok and now = january and dr = False] f
    by (simp add: ex_sending_processed id)
  moreover have "list_all (\<lambda>d'. d' = ex_sending \<or> status d' \<in> {''completed'', ''failed'', ''scheduled''})
        (campaigns (main_loop ex_fromisoformat post_ok (\<lambda>j k. january) False 0 2 (world_of ex_sending)))"
    unfolding list_all_iff
  proof
    fix d' assume "d' \<in> set (campaigns (main_loop ex_fromisoformat post_ok (\<lambda>j k. january) False 0 2 (world_of ex_sending)))"
    with persisted_status_never_sending [where w = "world_of ex_sending" and d' = d'
      and fi = ex_fromisoformat and post = post_ok and dr = False and clock = "\<lambda>j k. january" and j = 0 and n = 2] dist
    have "\<exists>d\<in>set (campaigns (world_of ex_sending)). campaign_id d = campaign_id d'
          \<and> (d' = d \<or> status d' \<in> {''completed'', ''failed'', ''scheduled''})" by blast
    then show "d' = ex_sending \<or> status d' \<in> {''completed'', ''failed'', ''scheduled''}"
      by (simp add: world_of_def)
  qed
  moreover have "status ex_sending = ''sending''" by (simp add: ex_sending_def)
  ultimately show ?thesis by blast
qed

section \<open>Contacts already served\<close>






section \<open>The retry ceiling\<close>











end
